theory Spec2Isabelle
  imports Main
begin

section \<open>Python values, exceptions and the RDKit interface\<close>

text \<open>
  The module \<^verbatim>\<open>fragmentation/editable_molecule.py\<close> is a thin layer over RDKit.
  Every exception the modelled methods can meet is a value of \<open>error\<close>:
  \<^item> \<open>AttributeError\<close>: \<^verbatim>\<open>self.molecule\<close> is read on an object built with
    \<^verbatim>\<open>molecule=None\<close> (the constructor sets the attribute only when a molecule is given);
  \<^item> \<open>ArgumentError\<close>: an RDKit function is handed \<^verbatim>\<open>None\<close> (or any other
    non-molecule) where it expects a molecule;
  \<^item> \<open>IndexError\<close>: \<^verbatim>\<open>modified_molecule[0]\<close> on an empty tuple;
  \<^item> \<open>RaiseMoleculeError\<close>: the module's own exception class;
  \<^item> \<open>ChemError\<close>: any other failure raised inside an RDKit call.
\<close>

datatype error = AttributeError | ArgumentError | IndexError | RaiseMoleculeError | ChemError

text \<open>
  RDKit itself is not part of the repository, so the five functions the module calls are
  a parameter of every definition below. \<open>'m\<close> is RDKit's molecule class (a query built
  from SMARTS is a molecule of the same class). \<^verbatim>\<open>MolFromSmiles\<close> and
  \<^verbatim>\<open>MolFromSmarts\<close> return \<^verbatim>\<open>None\<close> on notation they cannot parse; the others
  return a value or raise. The boolean of \<open>GetSubstructMatches\<close> is the keyword
  \<^verbatim>\<open>uniquify\<close>, the boolean of \<open>ReplaceSubstructs\<close> is \<^verbatim>\<open>replaceAll\<close>.
\<close>

record 'm rdkit =
  MolFromSmiles :: "string \<Rightarrow> 'm option"
  MolFromSmarts :: "string \<Rightarrow> 'm option"
  GetSubstructMatches :: "'m \<Rightarrow> 'm \<Rightarrow> bool \<Rightarrow> error + nat list list"
  ReplaceSubstructs :: "'m \<Rightarrow> 'm \<Rightarrow> 'm \<Rightarrow> bool \<Rightarrow> error + 'm list"
  SanitizeMol :: "'m \<Rightarrow> error + unit"

text \<open>
  The values a caller can hand to \<^verbatim>\<open>validate_molecule\<close>: \<^verbatim>\<open>None\<close>, a molecule
  (RDKit molecules define neither \<^verbatim>\<open>__bool__\<close> nor \<^verbatim>\<open>__len__\<close>, so they are
  always truthy), or an integer as the representative of other Python objects
  (\<^verbatim>\<open>0\<close> is falsy).
\<close>

datatype 'm pyobj = PyNone | PyMol 'm | PyInt int

fun truthy :: "'m pyobj \<Rightarrow> bool" where
  "truthy PyNone = False"
| "truthy (PyMol m) = True"
| "truthy (PyInt n) = (n \<noteq> 0)"

text \<open>Calls as Python makes them: an argument that is \<^verbatim>\<open>None\<close> is refused by the binding.\<close>

definition call_GetSubstructMatches ::
  "'m rdkit \<Rightarrow> 'm \<Rightarrow> 'm option \<Rightarrow> bool \<Rightarrow> error + nat list list" where
  "call_GetSubstructMatches rd m pattern uniquify =
     (case pattern of
        None \<Rightarrow> Inl ArgumentError
      | Some q \<Rightarrow> GetSubstructMatches rd m q uniquify)"

definition call_ReplaceSubstructs ::
  "'m rdkit \<Rightarrow> 'm \<Rightarrow> 'm option \<Rightarrow> 'm option \<Rightarrow> bool \<Rightarrow> error + 'm list" where
  "call_ReplaceSubstructs rd m query replacement replaceAll =
     (case query of
        None \<Rightarrow> Inl ArgumentError
      | Some q \<Rightarrow>
          (case replacement of
             None \<Rightarrow> Inl ArgumentError
           | Some r \<Rightarrow> ReplaceSubstructs rd m q r replaceAll))"

definition call_SanitizeMol :: "'m rdkit \<Rightarrow> 'm pyobj \<Rightarrow> error + unit" where
  "call_SanitizeMol rd x =
     (case x of
        PyMol m \<Rightarrow> SanitizeMol rd m
      | _ \<Rightarrow> Inl ArgumentError)"

section \<open>The state the methods run in\<close>

text \<open>
  \<open>R_GROUPS\<close> is the module-level dictionary loaded from
  \<^verbatim>\<open>datasources/R_Groups.yaml\<close> (the data file is not part of the sources, so the
  dictionary is a parameter). A Python dictionary iterates in insertion order and has
  unique keys: it is an association list, and the theorems that need unique keys say so.
  Each value is the two-element list \<^verbatim>\<open>[SMILES of the fragment, SMARTS of the pattern]\<close>,
  read by the code as \<^verbatim>\<open>value[0]\<close> and \<^verbatim>\<open>value[1]\<close>: a pair with \<open>fst\<close> and
  \<open>snd\<close>.
\<close>

type_synonym r_group = "string \<times> string"
type_synonym r_dict = "(string \<times> r_group) list"

text \<open>
  Of the fields of \<^verbatim>\<open>RGroupMolObject\<close> only \<^verbatim>\<open>molecule\<close> is read by the modelled
  methods; \<open>None\<close> stands for the attribute that \<^verbatim>\<open>__init__\<close> did not set.
\<close>

record 'm RGroupMolObject =
  molecule :: "'m option"

text \<open>What \<^verbatim>\<open>print\<close> writes, one value per line.\<close>

datatype line =
    Found_Functional_Group string nat
  | Not_a_valid_molecule error

text \<open>
  The world a method call sees and may change: the object, the module global, standard
  output, and the trace of the arguments \<^verbatim>\<open>SanitizeMol\<close> was invoked on.
\<close>

record 'm world =
  self :: "'m RGroupMolObject"
  R_GROUPS :: r_dict
  stdout :: "line list"
  sanitize_calls :: "'m pyobj list"

section \<open>The methods of \<^verbatim>\<open>RGroupMolObject\<close>\<close>

text \<open>\<^verbatim>\<open>d[key] = v\<close> on an insertion-ordered dictionary.\<close>

fun dict_set :: "('k \<times> 'v) list \<Rightarrow> 'k \<Rightarrow> 'v \<Rightarrow> ('k \<times> 'v) list" where
  "dict_set [] k v = [(k, v)]"
| "dict_set ((k', v') # d) k v = (if k' = k then (k, v) # d else (k', v') # dict_set d k v)"

text \<open>
  \<^verbatim>\<open>validate_molecule(self, molecule=None)\<close>. The body is guarded by
  \<^verbatim>\<open>if not molecule\<close>; inside, \<^verbatim>\<open>finally: return molecule\<close> ends the call whatever
  \<^verbatim>\<open>SanitizeMol\<close> did, and discards an exception the \<^verbatim>\<open>except\<close> clause did not
  catch. When the guard is false the method falls off its end and returns \<^verbatim>\<open>None\<close>.
\<close>

definition validate_molecule :: "'m rdkit \<Rightarrow> 'm pyobj \<Rightarrow> 'm world \<Rightarrow> 'm pyobj \<times> 'm world" where
  "validate_molecule rd mol w =
     (if \<not> truthy mol then
        (let w1 = w\<lparr>sanitize_calls := sanitize_calls w @ [mol]\<rparr> in
         case call_SanitizeMol rd mol of
           Inl RaiseMoleculeError \<Rightarrow>
             (mol, w1\<lparr>stdout := stdout w1 @ [Not_a_valid_molecule RaiseMoleculeError]\<rparr>)
         | _ \<Rightarrow> (mol, w1))
      else (PyNone, w))"

text \<open>
  \<^verbatim>\<open>find_r_groups\<close>: the loop over \<^verbatim>\<open>R_GROUPS.items()\<close>, with the dictionary under
  construction as accumulator. The matcher is called once for the test and once more
  for the count that is printed.
\<close>

fun find_loop ::
  "'m rdkit \<Rightarrow> r_dict \<Rightarrow> r_dict \<Rightarrow> 'm world \<Rightarrow> (error + r_dict) \<times> 'm world" where
  "find_loop rd [] pattern_payload w = (Inr pattern_payload, w)"
| "find_loop rd ((key, val) # items) pattern_payload w =
     (let pattern = MolFromSmarts rd (snd val) in
      case molecule (self w) of
        None \<Rightarrow> (Inl AttributeError, w)
      | Some m \<Rightarrow>
          (case call_GetSubstructMatches rd m pattern False of
             Inl e \<Rightarrow> (Inl e, w)
           | Inr found \<Rightarrow>
               if found \<noteq> [] then
                 (case call_GetSubstructMatches rd m pattern False of
                    Inl e \<Rightarrow> (Inl e, w)
                  | Inr counted \<Rightarrow>
                      find_loop rd items
                        (dict_set pattern_payload key (fst val, snd val))
                        (w\<lparr>stdout := stdout w @ [Found_Functional_Group key (length counted)]\<rparr>))
               else find_loop rd items pattern_payload w))"

definition find_r_groups :: "'m rdkit \<Rightarrow> 'm world \<Rightarrow> (error + r_dict) \<times> 'm world" where
  "find_r_groups rd w = find_loop rd (R_GROUPS w) [] w"

text \<open>
  \<^verbatim>\<open>r_group_enumerator\<close>. \<open>substitute\<close> is the body of the inner loop after the
  skip test: the call of \<^verbatim>\<open>ReplaceSubstructs\<close> with \<^verbatim>\<open>replaceAll=True\<close> (Python
  evaluates its arguments from left to right, \<^verbatim>\<open>self.molecule\<close> first) and the
  element \<^verbatim>\<open>[0]\<close> of the tuple it returns. \<open>enum_inner\<close> is the inner loop over
  \<^verbatim>\<open>R_GROUPS.items()\<close> for one found entry \<open>val\<close> whose pattern was parsed into
  \<open>smarts_mol\<close>, \<open>enum_outer\<close> the outer loop over \<^verbatim>\<open>patterns_found.items()\<close>.
\<close>

definition substitute :: "'m rdkit \<Rightarrow> 'm world \<Rightarrow> 'm option \<Rightarrow> r_group \<Rightarrow> error + 'm" where
  "substitute rd w smarts_mol r_data =
     (case molecule (self w) of
        None \<Rightarrow> Inl AttributeError
      | Some m \<Rightarrow>
          (case call_ReplaceSubstructs rd m smarts_mol (MolFromSmiles rd (fst r_data)) True of
             Inl e \<Rightarrow> Inl e
           | Inr modified_molecule \<Rightarrow>
               (case modified_molecule of
                  [] \<Rightarrow> Inl IndexError
                | d # _ \<Rightarrow> Inr d)))"

fun enum_inner ::
  "'m rdkit \<Rightarrow> 'm option \<Rightarrow> r_group \<Rightarrow> r_dict \<Rightarrow> 'm list \<Rightarrow> 'm world
     \<Rightarrow> (error + 'm list) \<times> 'm world" where
  "enum_inner rd smarts_mol val [] modified_molecules w = (Inr modified_molecules, w)"
| "enum_inner rd smarts_mol val ((r_functional_group, r_data) # items) modified_molecules w =
     (if snd r_data = snd val then enum_inner rd smarts_mol val items modified_molecules w
      else
        (case substitute rd w smarts_mol r_data of
           Inl e \<Rightarrow> (Inl e, w)
         | Inr d \<Rightarrow> enum_inner rd smarts_mol val items (modified_molecules @ [d]) w))"

fun enum_outer ::
  "'m rdkit \<Rightarrow> r_dict \<Rightarrow> 'm list \<Rightarrow> 'm world \<Rightarrow> (error + 'm list) \<times> 'm world" where
  "enum_outer rd [] modified_molecules w = (Inr modified_molecules, w)"
| "enum_outer rd ((key, val) # found) modified_molecules w =
     (let smarts_mol = MolFromSmarts rd (snd val) in
      case enum_inner rd smarts_mol val (R_GROUPS w) modified_molecules w of
        (Inl e, w') \<Rightarrow> (Inl e, w')
      | (Inr modified_molecules', w') \<Rightarrow> enum_outer rd found modified_molecules' w')"

definition r_group_enumerator ::
  "'m rdkit \<Rightarrow> r_dict \<Rightarrow> 'm world \<Rightarrow> (error + 'm list) \<times> 'm world" where
  "r_group_enumerator rd patterns_found w = enum_outer rd patterns_found [] w"

section \<open>Notions the statements use\<close>

text \<open>
  The occurrence sequence the Finder asks for: the pattern text of an entry parsed by
  \<^verbatim>\<open>MolFromSmarts\<close> and matched against the molecule with \<^verbatim>\<open>uniquify=False\<close>.
\<close>

definition occurrences :: "'m rdkit \<Rightarrow> 'm \<Rightarrow> r_group \<Rightarrow> error + nat list list" where
  "occurrences rd m val = call_GetSubstructMatches rd m (MolFromSmarts rd (snd val)) False"

definition occurs :: "'m rdkit \<Rightarrow> 'm \<Rightarrow> r_group \<Rightarrow> bool" where
  "occurs rd m val = (case occurrences rd m val of Inl e \<Rightarrow> False | Inr ms \<Rightarrow> ms \<noteq> [])"

definition occurrence_count :: "'m rdkit \<Rightarrow> 'm \<Rightarrow> r_group \<Rightarrow> nat" where
  "occurrence_count rd m val = (case occurrences rd m val of Inl e \<Rightarrow> 0 | Inr ms \<Rightarrow> length ms)"

text \<open>The pattern text of a dictionary item, \<^verbatim>\<open>value[1]\<close>.\<close>

definition pattern_text :: "string \<times> r_group \<Rightarrow> string" where
  "pattern_text item = snd (snd item)"

text \<open>
  The visitation order of the Enumerator as the specification words it: found entries
  in order, for each the whole library in order, leaving out the candidates whose
  pattern text equals the found entry's.
\<close>

definition visited :: "r_dict \<Rightarrow> r_dict \<Rightarrow> ((string \<times> r_group) \<times> (string \<times> r_group)) list" where
  "visited found library =
     concat (map (\<lambda>f. map (\<lambda>c. (f, c)) (filter (\<lambda>c. pattern_text c \<noteq> pattern_text f) library)) found)"

text \<open>The rewrite of one visited pair.\<close>

definition rewrite ::
  "'m rdkit \<Rightarrow> 'm world \<Rightarrow> (string \<times> r_group) \<times> (string \<times> r_group) \<Rightarrow> error + 'm" where
  "rewrite rd w p = substitute rd w (MolFromSmarts rd (pattern_text (fst p))) (snd (snd p))"

text \<open>A sequence of results run in order: the first exception ends it.\<close>

fun collect :: "(error + 'a) list \<Rightarrow> error + 'a list" where
  "collect [] = Inr []"
| "collect (Inl e # rs) = Inl e"
| "collect (Inr x # rs) = (case collect rs of Inl e \<Rightarrow> Inl e | Inr xs \<Rightarrow> Inr (x # xs))"

section \<open>A chemistry of unbranched chains\<close>

text \<open>
  To evaluate the methods on concrete inputs the RDKit interface is instantiated with a
  small executable chemistry: a molecule is an unbranched chain of single-bonded atoms,
  written as in SMILES with one capital letter per atom and with optional square
  brackets around an atom, so that \<^verbatim>\<open>O\<close> and \<^verbatim>\<open>[O]\<close> are two notations of the same
  atom. Anything else does not parse.
\<close>

type_synonym chain = "char list"

definition element :: "char \<Rightarrow> bool" where
  "element c = (c \<in> set ''BCNOFPSI'')"

fun parse_chain :: "string \<Rightarrow> chain option" where
  "parse_chain [] = Some []"
| "parse_chain (c # cs) =
     (if c = CHR ''['' then
        (case cs of
           a # b # rest \<Rightarrow>
             if element a \<and> b = CHR '']'' then map_option ((#) a) (parse_chain rest) else None
         | _ \<Rightarrow> None)
      else if element c then map_option ((#) c) (parse_chain cs)
      else None)"

text \<open>
  A chain pattern occurs in a chain along a contiguous run of atoms, read in either
  direction; an assignment lists the atom index of each pattern atom.
\<close>

definition chain_assignments :: "chain \<Rightarrow> chain \<Rightarrow> nat list list" where
  "chain_assignments g q =
     (if q = [] then []
      else remdups (concat (map
        (\<lambda>i. (if take (length q) (drop i g) = q then [[i ..< i + length q]] else []) @
             (if take (length q) (drop i g) = rev q then [rev [i ..< i + length q]] else []))
        [0 ..< Suc (length g) - length q])))"

text \<open>\<^verbatim>\<open>uniquify=True\<close> keeps one assignment for each set of atoms.\<close>

function one_per_atom_set :: "nat list list \<Rightarrow> nat list list" where
  "one_per_atom_set [] = []"
| "one_per_atom_set (a # as) = a # one_per_atom_set (filter (\<lambda>b. sort b \<noteq> sort a) as)"
  by pat_completeness auto
termination
  by (relation "measure length") (auto simp: less_Suc_eq_le)

definition chain_matches :: "chain \<Rightarrow> chain \<Rightarrow> bool \<Rightarrow> nat list list" where
  "chain_matches g q uniquify =
     (if uniquify then one_per_atom_set (chain_assignments g q) else chain_assignments g q)"

text \<open>
  Replacing every occurrence, scanning the chain once from its first atom; an occurrence
  read backwards receives the fragment backwards.
\<close>

function replace_every :: "chain \<Rightarrow> chain \<Rightarrow> chain \<Rightarrow> chain" where
  "replace_every [] q r = []"
| "replace_every (a # g) q r =
     (if q \<noteq> [] \<and> take (length q) (a # g) = q
        then r @ replace_every (drop (length q) (a # g)) q r
      else if q \<noteq> [] \<and> take (length q) (a # g) = rev q
        then rev r @ replace_every (drop (length q) (a # g)) q r
      else a # replace_every g q r)"
  by pat_completeness auto
termination
  by (relation "measure (\<lambda>(g, q, r). length g)") auto

text \<open>Replacing the one occurrence an assignment describes.\<close>

definition replace_one :: "chain \<Rightarrow> chain \<Rightarrow> nat list \<Rightarrow> chain" where
  "replace_one g r a =
     (case a of
        [] \<Rightarrow> g
      | i # _ \<Rightarrow>
          take (fold min a i) g @ (if i \<le> last a then r else rev r)
            @ drop (fold min a i + length a) g)"

definition chain_replace :: "chain \<Rightarrow> chain \<Rightarrow> chain \<Rightarrow> bool \<Rightarrow> chain list" where
  "chain_replace g q r replaceAll =
     (if chain_assignments g q = [] then [g]
      else if replaceAll then [replace_every g q r]
      else map (replace_one g r) (one_per_atom_set (chain_assignments g q)))"

definition chain_rdkit :: "chain rdkit" where
  "chain_rdkit =
     \<lparr>MolFromSmiles = parse_chain,
      MolFromSmarts = parse_chain,
      GetSubstructMatches = (\<lambda>g q uniquify. Inr (chain_matches g q uniquify)),
      ReplaceSubstructs = (\<lambda>g q r replaceAll. Inr (chain_replace g q r replaceAll)),
      SanitizeMol = (\<lambda>g. Inr ())\<rparr>"

definition chain_world :: "string \<Rightarrow> r_dict \<Rightarrow> chain world" where
  "chain_world smiles library =
     \<lparr>self = \<lparr>molecule = parse_chain smiles\<rparr>, R_GROUPS = library, stdout = [],
      sanitize_calls = []\<rparr>"

section \<open>Concrete inputs\<close>

text \<open>
  A library of three entries and ethylene glycol \<^verbatim>\<open>OCCO\<close>, in which the hydroxyl
  pattern \<^verbatim>\<open>[O]\<close> occurs twice.
\<close>

definition example_library :: r_dict where
  "example_library =
     [(''alcohol'', (''O'', ''[O]'')),
      (''amine'', (''N'', ''[N]'')),
      (''fluoride'', (''F'', ''[F]''))]"

definition glycol_world :: "chain world" where
  "glycol_world = chain_world ''OCCO'' example_library"

text \<open>
  The found mapping of \<open>glycol_world\<close>, and ethanolamine \<^verbatim>\<open>NCCO\<close>, in which two
  of the three library patterns occur.
\<close>

definition alcohol_found :: r_dict where
  "alcohol_found = [(''alcohol'', (''O'', ''[O]''))]"

definition ethanolamine_world :: "chain world" where
  "ethanolamine_world = chain_world ''NCCO'' example_library"

definition ethanolamine_found :: r_dict where
  "ethanolamine_found = [(''alcohol'', (''O'', ''[O]'')), (''amine'', (''N'', ''[N]''))]"

text \<open>
  A library in which the hydroxyl pattern is written in two notations, \<^verbatim>\<open>[O]\<close> and
  \<^verbatim>\<open>O\<close>, and in which two entries share the text \<^verbatim>\<open>[O]\<close>.
\<close>

definition notation_library :: r_dict where
  "notation_library =
     [(''alcohol'', (''O'', ''[O]'')),
      (''thiol'', (''S'', ''O'')),
      (''phosphine'', (''P'', ''[O]'')),
      (''amine'', (''N'', ''[N]''))]"

definition notation_world :: "chain world" where
  "notation_world = chain_world ''OCCO'' notation_library"

text \<open>Ethanol \<^verbatim>\<open>CCO\<close>, in which the hydroxyl pattern occurs once.\<close>

definition ethanol_world :: "chain world" where
  "ethanol_world = chain_world ''CCO'' example_library"

text \<open>
  Two libraries with a bad entry between good ones: one whose fragment is not SMILES,
  one whose pattern is not SMARTS (an unclosed bracket).
\<close>

definition bad_fragment_library :: r_dict where
  "bad_fragment_library =
     [(''amine'', (''N'', ''[N]'')),
      (''sulfide'', (''('', ''[S]'')),
      (''alcohol'', (''O'', ''[O]'')),
      (''fluoride'', (''F'', ''[F]''))]"

definition bad_fragment_world :: "chain world" where
  "bad_fragment_world = chain_world ''OCCO'' bad_fragment_library"





section \<open>Auxiliary facts\<close>

subsection \<open>Sequences of results and dictionary insertion\<close>

lemma collect_append:
  "collect (rs @ ss) =
     (case collect rs of
        Inl e \<Rightarrow> Inl e
      | Inr xs \<Rightarrow> (case collect ss of Inl e \<Rightarrow> Inl e | Inr ys \<Rightarrow> Inr (xs @ ys)))"
  by (induction rs rule: collect.induct) (auto split: sum.splits)

lemma collect_map_Inr: "collect (map Inr xs) = Inr xs"
  by (induction xs) auto

lemma collect_Inr_D: "collect rs = Inr xs \<Longrightarrow> rs = map Inr xs"
  by (induction rs arbitrary: xs rule: collect.induct) (auto split: sum.splits)

lemma collect_Inr_iff: "collect rs = Inr xs \<longleftrightarrow> rs = map Inr xs"
  using collect_Inr_D collect_map_Inr by blast

lemma collect_first_error:
  "collect (map Inr xs @ Inl e # rs) = Inl e"
  by (induction xs) auto

lemma collect_Inl_member:
  "Inl e \<in> set rs \<Longrightarrow> \<exists>e'. collect rs = Inl e'"
  by (induction rs rule: collect.induct) (auto split: sum.splits)

lemma all_Inr_code:
  "list_all (\<lambda>p. \<not> isl (f p)) ps \<Longrightarrow> \<forall>p \<in> set ps. \<exists>d. f p = Inr d"
proof
  fix p
  assume "list_all (\<lambda>p. \<not> isl (f p)) ps" and "p \<in> set ps"
  then have "\<not> isl (f p)" by (simp add: list_all_iff)
  then show "\<exists>d. f p = Inr d" by (cases "f p") auto
qed

lemma dict_set_fresh: "k \<notin> fst ` set d \<Longrightarrow> dict_set d k v = d @ [(k, v)]"
  by (induction d k v rule: dict_set.induct) auto

lemma fold_dict_set_distinct:
  "distinct (map fst (acc @ xs)) \<Longrightarrow> fold (\<lambda>(k, v) d. dict_set d k v) xs acc = acc @ xs"
proof (induction xs arbitrary: acc)
  case Nil
  then show ?case by simp
next
  case (Cons x xs)
  obtain k v where x: "x = (k, v)" by (cases x)
  from Cons.prems have fresh: "k \<notin> fst ` set acc" by (auto simp: x)
  from Cons.prems have "distinct (map fst ((acc @ [(k, v)]) @ xs))" by (auto simp: x)
  from Cons.IH [OF this] show ?case by (simp add: x dict_set_fresh [OF fresh])
qed

subsection \<open>The loop of the Finder\<close>

lemma find_loop_frame:
  "self (snd (find_loop rd items acc w)) = self w \<and>
   R_GROUPS (snd (find_loop rd items acc w)) = R_GROUPS w \<and>
   sanitize_calls (snd (find_loop rd items acc w)) = sanitize_calls w"
  by (induction rd items acc w rule: find_loop.induct)
    (auto simp: Let_def split: option.splits sum.splits)

lemma find_loop_ok:
  assumes "molecule (self w) = Some m"
    and "\<forall>item \<in> set items. \<exists>ms. occurrences rd m (snd item) = Inr ms"
  shows "find_loop rd items acc w =
     (Inr (fold (\<lambda>(k, v) d. dict_set d k v) (filter (\<lambda>item. occurs rd m (snd item)) items) acc),
      w\<lparr>stdout := stdout w @
          map (\<lambda>(k, v). Found_Functional_Group k (occurrence_count rd m v))
            (filter (\<lambda>item. occurs rd m (snd item)) items)\<rparr>)"
  using assms
proof (induction items arbitrary: acc w)
  case Nil
  then show ?case by simp
next
  case (Cons item items)
  obtain k v where item: "item = (k, v)" by (cases item)
  from Cons.prems obtain ms where ms: "occurrences rd m v = Inr ms" by (auto simp: item)
  show ?case
  proof (cases "ms = []")
    case True
    with ms Cons.prems Cons.IH [of w acc] show ?thesis
      by (simp add: item occurs_def occurrences_def)
  next
    case False
    let ?w = "w\<lparr>stdout := stdout w @ [Found_Functional_Group k (length ms)]\<rparr>"
    from Cons.prems have "molecule (self ?w) = Some m" by simp
    from Cons.IH [OF this, of "dict_set acc k v"] Cons.prems ms False show ?thesis
      by (simp add: item occurs_def occurrences_def occurrence_count_def)
  qed
qed


lemma find_loop_no_molecule:
  "molecule (self w) = None \<Longrightarrow> items \<noteq> [] \<Longrightarrow> fst (find_loop rd items acc w) = Inl AttributeError"
  by (cases items) auto

subsection \<open>The loops of the Enumerator\<close>

lemma enum_inner_collect:
  "enum_inner rd q val items mm w =
     (case collect (map (\<lambda>c. substitute rd w q (snd c)) (filter (\<lambda>c. snd (snd c) \<noteq> snd val) items)) of
        Inl e \<Rightarrow> (Inl e, w)
      | Inr ds \<Rightarrow> (Inr (mm @ ds), w))"
  by (induction rd q val items mm w rule: enum_inner.induct) (auto split: sum.splits)

lemma enum_outer_collect:
  "enum_outer rd found mm w =
     (case collect (map (rewrite rd w) (visited found (R_GROUPS w))) of
        Inl e \<Rightarrow> (Inl e, w)
      | Inr ds \<Rightarrow> (Inr (mm @ ds), w))"
proof (induction found arbitrary: mm)
  case Nil
  then show ?case by (simp add: visited_def)
next
  case (Cons f found)
  obtain k v where f: "f = (k, v)" by (cases f)
  have split: "visited (f # found) (R_GROUPS w) =
      map (\<lambda>c. (f, c)) (filter (\<lambda>c. pattern_text c \<noteq> pattern_text f) (R_GROUPS w))
        @ visited found (R_GROUPS w)"
    by (simp add: visited_def)
  have inner: "map (rewrite rd w) (map (\<lambda>c. (f, c)) (filter (\<lambda>c. pattern_text c \<noteq> pattern_text f) (R_GROUPS w)))
      = map (\<lambda>c. substitute rd w (MolFromSmarts rd (snd v)) (snd c))
          (filter (\<lambda>c. snd (snd c) \<noteq> snd v) (R_GROUPS w))"
    by (simp add: rewrite_def pattern_text_def f comp_def)
  show ?case
    unfolding split map_append inner collect_append
    by (simp add: f enum_inner_collect Cons.IH split: sum.splits)
qed

section \<open>The R-Group Finder\<close>

lemma find_r_groups_ok:
  assumes "molecule (self w) = Some m"
    and "distinct (map fst (R_GROUPS w))"
    and "\<forall>item \<in> set (R_GROUPS w). \<exists>ms. occurrences rd m (snd item) = Inr ms"
  shows "find_r_groups rd w =
     (Inr (filter (\<lambda>item. occurs rd m (snd item)) (R_GROUPS w)),
      w\<lparr>stdout := stdout w @
          map (\<lambda>(k, v). Found_Functional_Group k (occurrence_count rd m v))
            (filter (\<lambda>item. occurs rd m (snd item)) (R_GROUPS w))\<rparr>)"
proof -
  have "distinct (map fst ([] @ filter (\<lambda>item. occurs rd m (snd item)) (R_GROUPS w)))"
    using assms(2) by (simp add: distinct_map_filter)
  from fold_dict_set_distinct [OF this] show ?thesis
    unfolding find_r_groups_def find_loop_ok [OF assms(1) assms(3)] by simp
qed

lemma example_library_matches:
  "\<forall>item \<in> set (R_GROUPS glycol_world).
     \<exists>ms. occurrences chain_rdkit ''OCCO'' (snd item) = Inr ms"
  by (simp add: glycol_world_def chain_world_def example_library_def occurrences_def
      call_GetSubstructMatches_def chain_rdkit_def element_def)

lemma ethanol_library_matches:
  "\<forall>item \<in> set (R_GROUPS ethanol_world).
     \<exists>ms. occurrences chain_rdkit ''CCO'' (snd item) = Inr ms"
  by (simp add: ethanol_world_def chain_world_def example_library_def occurrences_def
      call_GetSubstructMatches_def chain_rdkit_def element_def)

lemma printed_counts:
  "list_all2
     (\<lambda>item l. \<exists>ms. occurrences rd m (snd item) = Inr ms \<and>
        l = Found_Functional_Group (fst item) (length ms))
     (filter (\<lambda>item. occurs rd m (snd item)) items)
     (map (\<lambda>(k, v). Found_Functional_Group k (occurrence_count rd m v))
        (filter (\<lambda>item. occurs rd m (snd item)) items))"
proof -
  have "\<exists>ms. occurrences rd m (snd item) = Inr ms \<and>
      (case item of (k, v) \<Rightarrow> Found_Functional_Group k (occurrence_count rd m v)) =
        Found_Functional_Group (fst item) (length ms)"
    if "occurs rd m (snd item)" for item
    using that
    by (cases item; cases "occurrences rd m (snd item)")
      (simp_all add: occurs_def occurrence_count_def)
  then show ?thesis
    by (simp add: list_all2_map2 list_all2_same)
qed

text \<open>
  Claim C4, as the code has it. When the object holds a molecule and the matcher answers
  for every library entry, \<^verbatim>\<open>find_r_groups\<close> returns a mapping and raises nothing.
  The mapping has the key of a library entry exactly when the occurrence sequence of that
  entry's pattern on the molecule is non-empty, and an entry without occurrences is left
  out without any error. The value stored under a retained key is the library's own
  \<^verbatim>\<open>[value[0], value[1]]\<close>: the mapping is the library filtered by occurrence and
  holds no count. The occurrence count (the length of the occurrence sequence) is only
  printed, one line for each retained entry in the order of the mapping.
\<close>

theorem finder_retains_occurring_entries:
  assumes "molecule (self w) = Some m"
    and "distinct (map fst (R_GROUPS w))"
    and "\<forall>item \<in> set (R_GROUPS w). \<exists>ms. occurrences rd m (snd item) = Inr ms"
  shows "\<exists>payload printed w'.
      find_r_groups rd w = (Inr payload, w') \<and>
      (\<forall>k. k \<in> fst ` set payload \<longleftrightarrow>
         (\<exists>v ms. (k, v) \<in> set (R_GROUPS w) \<and> occurrences rd m v = Inr ms \<and> ms \<noteq> [])) \<and>
      payload = filter (\<lambda>item. occurs rd m (snd item)) (R_GROUPS w) \<and>
      stdout w' = stdout w @ printed \<and>
      list_all2
        (\<lambda>item l. \<exists>ms. occurrences rd m (snd item) = Inr ms \<and>
           l = Found_Functional_Group (fst item) (length ms))
        payload printed"
proof -
  let ?payload = "filter (\<lambda>item. occurs rd m (snd item)) (R_GROUPS w)"
  let ?printed = "map (\<lambda>(k, v). Found_Functional_Group k (occurrence_count rd m v)) ?payload"
  have keys: "\<forall>k. k \<in> fst ` set ?payload \<longleftrightarrow>
      (\<exists>v ms. (k, v) \<in> set (R_GROUPS w) \<and> occurrences rd m v = Inr ms \<and> ms \<noteq> [])"
  proof (rule allI, rule iffI)
    fix k
    assume "k \<in> fst ` set ?payload"
    then obtain v where v: "(k, v) \<in> set (R_GROUPS w)" and o: "occurs rd m v" by auto
    from o obtain ms where "occurrences rd m v = Inr ms" and "ms \<noteq> []"
      by (cases "occurrences rd m v") (simp_all add: occurs_def)
    with v show "\<exists>v ms. (k, v) \<in> set (R_GROUPS w) \<and> occurrences rd m v = Inr ms \<and> ms \<noteq> []"
      by blast
  next
    fix k
    assume "\<exists>v ms. (k, v) \<in> set (R_GROUPS w) \<and> occurrences rd m v = Inr ms \<and> ms \<noteq> []"
    then obtain v ms where "(k, v) \<in> set (R_GROUPS w)" and "occurrences rd m v = Inr ms" and "ms \<noteq> []"
      by blast
    then have "(k, v) \<in> set ?payload" by (simp add: occurs_def)
    then show "k \<in> fst ` set ?payload" by (rule image_eqI [rotated]) simp
  qed
  let ?w' = "w\<lparr>stdout := stdout w @ ?printed\<rparr>"
  have run: "find_r_groups rd w = (Inr ?payload, ?w')"
    by (rule find_r_groups_ok [OF assms])
  have out: "stdout ?w' = stdout w @ ?printed"
    by simp
  have same: "?payload = filter (\<lambda>item. occurs rd m (snd item)) (R_GROUPS w)"
    by (rule refl)
  from run keys same out printed_counts [of rd m "R_GROUPS w"] show ?thesis
    by (intro exI conjI)
qed

theorem finder_retains_occurring_entries_witness:
  "fst (find_r_groups chain_rdkit glycol_world) = Inr [(''alcohol'', (''O'', ''[O]''))] \<and>
   stdout (snd (find_r_groups chain_rdkit glycol_world)) = [Found_Functional_Group ''alcohol'' 2] \<and>
   (\<exists>payload printed w'.
      find_r_groups chain_rdkit glycol_world = (Inr payload, w') \<and>
      (\<forall>k. k \<in> fst ` set payload \<longleftrightarrow>
         (\<exists>v ms. (k, v) \<in> set (R_GROUPS glycol_world) \<and>
            occurrences chain_rdkit ''OCCO'' v = Inr ms \<and> ms \<noteq> [])) \<and>
      payload = filter (\<lambda>item. occurs chain_rdkit ''OCCO'' (snd item)) (R_GROUPS glycol_world) \<and>
      stdout w' = stdout glycol_world @ printed \<and>
      list_all2
        (\<lambda>item l. \<exists>ms. occurrences chain_rdkit ''OCCO'' (snd item) = Inr ms \<and>
           l = Found_Functional_Group (fst item) (length ms))
        payload printed)"
proof -
  have h1: "molecule (self glycol_world) = Some ''OCCO''"
    by code_simp
  have h2: "distinct (map fst (R_GROUPS glycol_world))"
    by code_simp
  have run: "fst (find_r_groups chain_rdkit glycol_world) = Inr [(''alcohol'', (''O'', ''[O]''))]"
    by code_simp
  have out: "stdout (snd (find_r_groups chain_rdkit glycol_world)) = [Found_Functional_Group ''alcohol'' 2]"
    by code_simp
  from run out finder_retains_occurring_entries [OF h1 h2 example_library_matches]
  show ?thesis by (intro conjI)
qed

text \<open>
  The returned mapping does not carry the count: on ethylene glycol, where the hydroxyl
  pattern occurs twice, and on ethanol, where it occurs once, \<^verbatim>\<open>find_r_groups\<close>
  returns the same mapping, whose only value is the library's
  \<^verbatim>\<open>[value[0], value[1]]\<close>; the two counts appear on standard output and nowhere else.
\<close>

theorem finder_mapping_holds_no_count:
  "occurrences chain_rdkit ''OCCO'' (''O'', ''[O]'') = Inr [[0], [3]] \<and>
   occurrences chain_rdkit ''CCO'' (''O'', ''[O]'') = Inr [[2]] \<and>
   fst (find_r_groups chain_rdkit glycol_world) = Inr [(''alcohol'', (''O'', ''[O]''))] \<and>
   fst (find_r_groups chain_rdkit ethanol_world) = Inr [(''alcohol'', (''O'', ''[O]''))] \<and>
   stdout (snd (find_r_groups chain_rdkit glycol_world)) = [Found_Functional_Group ''alcohol'' 2] \<and>
   stdout (snd (find_r_groups chain_rdkit ethanol_world)) = [Found_Functional_Group ''alcohol'' 1]"
proof (intro conjI)
  show "occurrences chain_rdkit ''OCCO'' (''O'', ''[O]'') = Inr [[0], [3]]"
    by code_simp
  show "occurrences chain_rdkit ''CCO'' (''O'', ''[O]'') = Inr [[2]]"
    by code_simp
  show "fst (find_r_groups chain_rdkit glycol_world) = Inr [(''alcohol'', (''O'', ''[O]''))]"
    by code_simp
  show "fst (find_r_groups chain_rdkit ethanol_world) = Inr [(''alcohol'', (''O'', ''[O]''))]"
    by code_simp
  show "stdout (snd (find_r_groups chain_rdkit glycol_world)) = [Found_Functional_Group ''alcohol'' 2]"
    by code_simp
  show "stdout (snd (find_r_groups chain_rdkit ethanol_world)) = [Found_Functional_Group ''alcohol'' 1]"
    by code_simp
qed

section \<open>The Enumerator\<close>

lemma r_group_enumerator_collect:
  "r_group_enumerator rd found w =
     (case collect (map (rewrite rd w) (visited found (R_GROUPS w))) of
        Inl e \<Rightarrow> (Inl e, w)
      | Inr ds \<Rightarrow> (Inr ds, w))"
  by (simp add: r_group_enumerator_def enum_outer_collect split: sum.splits)

lemma all_Inr_map:
  "\<forall>p \<in> set ps. \<exists>d. f p = Inr d \<Longrightarrow> \<exists>ds. map f ps = map Inr ds"
proof (induction ps)
  case Nil
  then show ?case by simp
next
  case (Cons p ps)
  then obtain d ds where "f p = Inr d" and "map f ps = map Inr ds" by auto
  then have "map f (p # ps) = map Inr (d # ds)" by simp
  then show ?case by blast
qed

lemma r_group_enumerator_ok:
  assumes "\<forall>p \<in> set (visited found (R_GROUPS w)). \<exists>d. rewrite rd w p = Inr d"
  shows "\<exists>out. r_group_enumerator rd found w = (Inr out, w) \<and>
           map Inr out = map (rewrite rd w) (visited found (R_GROUPS w))"
proof -
  from all_Inr_map [OF assms] obtain ds
    where ds: "map (rewrite rd w) (visited found (R_GROUPS w)) = map Inr ds" by blast
  then have "collect (map (rewrite rd w) (visited found (R_GROUPS w))) = Inr ds"
    by (simp add: collect_map_Inr)
  then have "r_group_enumerator rd found w = (Inr ds, w)"
    by (simp add: r_group_enumerator_collect)
  with ds show ?thesis by auto
qed

lemma length_visited:
  "length (visited found library) =
     sum_list (map (\<lambda>f. length (filter (\<lambda>c. pattern_text c \<noteq> pattern_text f) library)) found)"
  by (simp add: visited_def length_concat comp_def)

lemma others_of_distinct:
  assumes "distinct (map g xs)" and "x \<in> set xs"
  shows "length (filter (\<lambda>c. g c \<noteq> g x) xs) = length xs - 1"
  using assms
proof (induction xs)
  case Nil
  then show ?case by simp
next
  case (Cons y ys)
  show ?case
  proof (cases "y = x")
    case True
    with Cons.prems have "g x \<notin> g ` set ys" by simp
    then have "\<forall>c \<in> set ys. g c \<noteq> g x" by (metis imageI)
    then have "filter (\<lambda>c. g c \<noteq> g x) ys = ys" by (simp add: filter_id_conv)
    with True show ?thesis by simp
  next
    case False
    with Cons.prems have x: "x \<in> set ys" and d: "distinct (map g ys)" by auto
    from Cons.prems x have "g y \<noteq> g x" by auto
    moreover from x have "length ys > 0" by (cases ys) auto
    ultimately show ?thesis using Cons.IH [OF d x] by simp
  qed
qed

lemma some_other_entry:
  assumes "c \<in> set library" and "c' \<in> set library" and "pattern_text c \<noteq> pattern_text c'"
  shows "filter (\<lambda>c. pattern_text c \<noteq> pattern_text f) library \<noteq> []"
proof -
  from assms(3) have "pattern_text c \<noteq> pattern_text f \<or> pattern_text c' \<noteq> pattern_text f"
    by auto
  with assms(1,2) show ?thesis by (auto simp: filter_empty_conv)
qed

text \<open>
  Claim C1. When every rewrite of a visited pair can be performed, the Enumerator returns
  a sequence, and its length is the sum, over the found entries, of the number of library
  entries whose pattern text differs from the found entry's. With found entries taken
  from a library whose pattern texts are all distinct this is
  \<open>k * (m - 1)\<close>, so 2 for one found entry in a library of three; and the sequence is
  not empty when there is a found entry and the library has two entries with different
  pattern text.
\<close>

theorem enumerator_cardinality:
  assumes "\<forall>p \<in> set (visited found (R_GROUPS w)). \<exists>d. rewrite rd w p = Inr d"
  shows "\<exists>out.
      fst (r_group_enumerator rd found w) = Inr out \<and>
      length out =
        sum_list (map (\<lambda>f. length (filter (\<lambda>c. pattern_text c \<noteq> pattern_text f) (R_GROUPS w)))
          found) \<and>
      (distinct (map pattern_text (R_GROUPS w)) \<and> set found \<subseteq> set (R_GROUPS w) \<longrightarrow>
         length out = length found * (length (R_GROUPS w) - 1)) \<and>
      (distinct (map pattern_text (R_GROUPS w)) \<and> length (R_GROUPS w) = 3 \<and>
         (\<exists>a. found = [a] \<and> a \<in> set (R_GROUPS w)) \<longrightarrow> length out = 2) \<and>
      (found \<noteq> [] \<and>
         (\<exists>c \<in> set (R_GROUPS w). \<exists>c' \<in> set (R_GROUPS w). pattern_text c \<noteq> pattern_text c') \<longrightarrow>
         out \<noteq> [])"
proof -
  let ?lib = "R_GROUPS w"
  from r_group_enumerator_ok [OF assms] obtain out
    where run: "r_group_enumerator rd found w = (Inr out, w)"
      and out: "map Inr out = map (rewrite rd w) (visited found ?lib)" by blast
  from out have "length (map Inr out :: (error + 'a) list) = length (map (rewrite rd w) (visited found ?lib))"
    by simp
  then have len: "length out = length (visited found ?lib)" by simp
  have total: "length out =
      sum_list (map (\<lambda>f. length (filter (\<lambda>c. pattern_text c \<noteq> pattern_text f) ?lib)) found)"
    by (simp add: len length_visited)
  have product: "length out = length found * (length ?lib - 1)"
    if d: "distinct (map pattern_text ?lib)" and sub: "set found \<subseteq> set ?lib"
  proof -
    have "map (\<lambda>f. length (filter (\<lambda>c. pattern_text c \<noteq> pattern_text f) ?lib)) found
        = map (\<lambda>f. length ?lib - 1) found"
      using sub by (intro map_cong refl others_of_distinct [OF d]) auto
    then have "sum_list (map (\<lambda>f. length (filter (\<lambda>c. pattern_text c \<noteq> pattern_text f) ?lib)) found)
        = sum_list (map (\<lambda>f. length ?lib - 1) found)"
      by (rule arg_cong)
    also have "\<dots> = length found * (length ?lib - 1)"
      by (simp add: sum_list_triv)
    finally show ?thesis by (simp only: total)
  qed
  have two: "length out = 2"
    if d: "distinct (map pattern_text ?lib)" and three: "length ?lib = 3"
      and one: "\<exists>a. found = [a] \<and> a \<in> set ?lib"
  proof -
    from one obtain a where "found = [a]" and "a \<in> set ?lib" by blast
    then have "set found \<subseteq> set ?lib" and "length found = 1" by auto
    with product [OF d] three show ?thesis by simp
  qed
  have nonempty: "out \<noteq> []"
    if ne: "found \<noteq> []"
      and two_texts: "\<exists>c \<in> set ?lib. \<exists>c' \<in> set ?lib. pattern_text c \<noteq> pattern_text c'"
  proof -
    from ne obtain f rest where found: "found = f # rest" by (cases found) auto
    from two_texts obtain c c' where "c \<in> set ?lib" "c' \<in> set ?lib"
      "pattern_text c \<noteq> pattern_text c'" by blast
    from some_other_entry [OF this, of f]
    have "length (filter (\<lambda>c. pattern_text c \<noteq> pattern_text f) ?lib) > 0" by simp
    with total found have "length out > 0" by simp
    then show ?thesis by auto
  qed
  from run have "fst (r_group_enumerator rd found w) = Inr out" by simp
  with total product two nonempty show ?thesis by blast
qed

theorem enumerator_cardinality_witness:
  "fst (r_group_enumerator chain_rdkit alcohol_found glycol_world) = Inr [''NCCN'', ''FCCF''] \<and>
   (\<exists>out. fst (r_group_enumerator chain_rdkit alcohol_found glycol_world) = Inr out \<and>
      length out = 1 * (3 - 1) \<and> length out = 2 \<and> out \<noteq> [])"
proof -
  have "list_all (\<lambda>p. \<not> isl (rewrite chain_rdkit glycol_world p))
      (visited alcohol_found (R_GROUPS glycol_world))"
    by code_simp
  then have h: "\<forall>p \<in> set (visited alcohol_found (R_GROUPS glycol_world)).
      \<exists>d. rewrite chain_rdkit glycol_world p = Inr d"
    by (rule all_Inr_code)
  have d: "distinct (map pattern_text (R_GROUPS glycol_world))"
    by code_simp
  have sub: "set alcohol_found \<subseteq> set (R_GROUPS glycol_world)"
    by code_simp
  have three: "length (R_GROUPS glycol_world) = 3" and one: "length alcohol_found = 1"
    by code_simp+
  have "alcohol_found = [(''alcohol'', (''O'', ''[O]''))] \<and>
      (''alcohol'', (''O'', ''[O]'')) \<in> set (R_GROUPS glycol_world)"
    by code_simp
  then have single: "\<exists>a. alcohol_found = [a] \<and> a \<in> set (R_GROUPS glycol_world)"
    by (rule exI)
  have ne: "alcohol_found \<noteq> []"
    by (simp add: alcohol_found_def)
  have "list_ex (\<lambda>c. list_ex (\<lambda>c'. pattern_text c \<noteq> pattern_text c') (R_GROUPS glycol_world))
      (R_GROUPS glycol_world)"
    by code_simp
  then have texts: "\<exists>c \<in> set (R_GROUPS glycol_world). \<exists>c' \<in> set (R_GROUPS glycol_world).
      pattern_text c \<noteq> pattern_text c'"
    by (simp only: list_ex_iff)
  have run: "fst (r_group_enumerator chain_rdkit alcohol_found glycol_world) = Inr [''NCCN'', ''FCCF'']"
    by code_simp
  from enumerator_cardinality [OF h] obtain out
    where "fst (r_group_enumerator chain_rdkit alcohol_found glycol_world) = Inr out"
      and "distinct (map pattern_text (R_GROUPS glycol_world)) \<and>
           set alcohol_found \<subseteq> set (R_GROUPS glycol_world) \<longrightarrow>
           length out = length alcohol_found * (length (R_GROUPS glycol_world) - 1)"
      and "distinct (map pattern_text (R_GROUPS glycol_world)) \<and>
           length (R_GROUPS glycol_world) = 3 \<and>
           (\<exists>a. alcohol_found = [a] \<and> a \<in> set (R_GROUPS glycol_world)) \<longrightarrow> length out = 2"
      and "alcohol_found \<noteq> [] \<and>
           (\<exists>c \<in> set (R_GROUPS glycol_world). \<exists>c' \<in> set (R_GROUPS glycol_world).
              pattern_text c \<noteq> pattern_text c') \<longrightarrow> out \<noteq> []"
    by blast
  with d sub three one single ne texts
  have "fst (r_group_enumerator chain_rdkit alcohol_found glycol_world) = Inr out \<and>
      length out = 1 * (3 - 1) \<and> length out = 2 \<and> out \<noteq> []"
    by simp
  with run show ?thesis by blast
qed

lemma map_rewrite_visited:
  "map (rewrite rd w) (visited found library) =
     concat (map (\<lambda>f. map (\<lambda>c. rewrite rd w (f, c))
       (filter (\<lambda>c. pattern_text c \<noteq> pattern_text f) library)) found)"
  by (simp add: visited_def map_concat comp_def)

text \<open>
  Claim C5. The mapping \<^verbatim>\<open>find_r_groups\<close> returns is the library, in its own order,
  restricted to the entries whose pattern occurs; and the list
  \<^verbatim>\<open>r_group_enumerator\<close> returns holds the derivatives in the order of the outer loop
  over the found entries and, inside it, of the inner loop over the whole library
  (not over the found entries only).
\<close>

theorem order_preservation:
  "(molecule (self w) = Some m \<and> distinct (map fst (R_GROUPS w)) \<and>
      (\<forall>item \<in> set (R_GROUPS w). \<exists>ms. occurrences rd m (snd item) = Inr ms) \<longrightarrow>
    fst (find_r_groups rd w) = Inr (filter (\<lambda>item. occurs rd m (snd item)) (R_GROUPS w))) \<and>
   ((\<forall>p \<in> set (visited found (R_GROUPS w)). \<exists>d. rewrite rd w p = Inr d) \<longrightarrow>
    (\<exists>out. fst (r_group_enumerator rd found w) = Inr out \<and>
       map Inr out =
         concat (map (\<lambda>f. map (\<lambda>c. rewrite rd w (f, c))
           (filter (\<lambda>c. pattern_text c \<noteq> pattern_text f) (R_GROUPS w))) found)))"
proof (intro conjI impI)
  assume "molecule (self w) = Some m \<and> distinct (map fst (R_GROUPS w)) \<and>
      (\<forall>item \<in> set (R_GROUPS w). \<exists>ms. occurrences rd m (snd item) = Inr ms)"
  then have "molecule (self w) = Some m" and "distinct (map fst (R_GROUPS w))"
    and "\<forall>item \<in> set (R_GROUPS w). \<exists>ms. occurrences rd m (snd item) = Inr ms"
    by blast+
  from find_r_groups_ok [OF this]
  show "fst (find_r_groups rd w) = Inr (filter (\<lambda>item. occurs rd m (snd item)) (R_GROUPS w))"
    by simp
next
  assume "\<forall>p \<in> set (visited found (R_GROUPS w)). \<exists>d. rewrite rd w p = Inr d"
  from r_group_enumerator_ok [OF this] obtain out
    where "r_group_enumerator rd found w = (Inr out, w)"
      and "map Inr out = map (rewrite rd w) (visited found (R_GROUPS w))" by blast
  then have "fst (r_group_enumerator rd found w) = Inr out \<and>
      map Inr out =
         concat (map (\<lambda>f. map (\<lambda>c. rewrite rd w (f, c))
           (filter (\<lambda>c. pattern_text c \<noteq> pattern_text f) (R_GROUPS w))) found)"
    by (simp add: map_rewrite_visited)
  then show "\<exists>out. fst (r_group_enumerator rd found w) = Inr out \<and>
       map Inr out =
         concat (map (\<lambda>f. map (\<lambda>c. rewrite rd w (f, c))
           (filter (\<lambda>c. pattern_text c \<noteq> pattern_text f) (R_GROUPS w))) found)"
    by (rule exI)
qed

lemma ethanolamine_matches:
  "\<forall>item \<in> set (R_GROUPS ethanolamine_world).
     \<exists>ms. occurrences chain_rdkit ''NCCO'' (snd item) = Inr ms"
  by (simp add: ethanolamine_world_def chain_world_def example_library_def occurrences_def
      call_GetSubstructMatches_def chain_rdkit_def element_def)

theorem order_preservation_witness:
  "fst (find_r_groups chain_rdkit ethanolamine_world) = Inr ethanolamine_found \<and>
   fst (r_group_enumerator chain_rdkit ethanolamine_found ethanolamine_world) =
     Inr [''NCCN'', ''NCCF'', ''OCCO'', ''FCCO''] \<and>
   (\<exists>out. fst (r_group_enumerator chain_rdkit ethanolamine_found ethanolamine_world) = Inr out \<and>
      map Inr out =
        concat (map (\<lambda>f. map (\<lambda>c. rewrite chain_rdkit ethanolamine_world (f, c))
          (filter (\<lambda>c. pattern_text c \<noteq> pattern_text f) (R_GROUPS ethanolamine_world)))
          ethanolamine_found))"
proof -
  have h1: "molecule (self ethanolamine_world) = Some ''NCCO''"
    by code_simp
  have h2: "distinct (map fst (R_GROUPS ethanolamine_world))"
    by code_simp
  have "list_all (\<lambda>p. \<not> isl (rewrite chain_rdkit ethanolamine_world p))
      (visited ethanolamine_found (R_GROUPS ethanolamine_world))"
    by code_simp
  then have h4: "\<forall>p \<in> set (visited ethanolamine_found (R_GROUPS ethanolamine_world)).
      \<exists>d. rewrite chain_rdkit ethanolamine_world p = Inr d"
    by (rule all_Inr_code)
  have kept: "filter (\<lambda>item. occurs chain_rdkit ''NCCO'' (snd item)) (R_GROUPS ethanolamine_world)
      = ethanolamine_found"
    by code_simp
  have run: "fst (r_group_enumerator chain_rdkit ethanolamine_found ethanolamine_world) =
      Inr [''NCCN'', ''NCCF'', ''OCCO'', ''FCCO'']"
    by code_simp
  note inst = order_preservation [of ethanolamine_world "''NCCO''" chain_rdkit ethanolamine_found]
  from inst h1 h2 ethanolamine_matches
  have "fst (find_r_groups chain_rdkit ethanolamine_world) =
      Inr (filter (\<lambda>item. occurs chain_rdkit ''NCCO'' (snd item)) (R_GROUPS ethanolamine_world))"
    by blast
  then have finder: "fst (find_r_groups chain_rdkit ethanolamine_world) = Inr ethanolamine_found"
    by (simp only: kept)
  from inst h4
  have "\<exists>out. fst (r_group_enumerator chain_rdkit ethanolamine_found ethanolamine_world) = Inr out \<and>
      map Inr out =
        concat (map (\<lambda>f. map (\<lambda>c. rewrite chain_rdkit ethanolamine_world (f, c))
          (filter (\<lambda>c. pattern_text c \<noteq> pattern_text f) (R_GROUPS ethanolamine_world)))
          ethanolamine_found)"
    by blast
  with finder run show ?thesis by blast
qed

subsection \<open>The skip test\<close>

lemma visited_append:
  "visited (fs @ gs) library = visited fs library @ visited gs library"
  by (simp add: visited_def)

lemma visited_single_append:
  "visited [f] (cs @ ds) = visited [f] cs @ visited [f] ds"
  by (simp add: visited_def)

lemma visited_single_one:
  "visited [f] [c] = (if pattern_text c = pattern_text f then [] else [(f, c)])"
  by (simp add: visited_def)

lemma visited_position:
  "visited (fs @ f # fs') (cs @ c # cs') =
     (visited fs (cs @ c # cs') @ visited [f] cs) @ visited [f] [c]
       @ (visited [f] cs' @ visited fs' (cs @ c # cs'))"
proof -
  have "visited (fs @ f # fs') (cs @ c # cs') =
      visited fs (cs @ c # cs') @ visited [f] (cs @ c # cs') @ visited fs' (cs @ c # cs')"
    using visited_append [of fs "[f] @ fs'"] visited_append [of "[f]" fs'] by simp
  moreover have "visited [f] (cs @ c # cs') = visited [f] cs @ visited [f] [c] @ visited [f] cs'"
    using visited_single_append [of f cs "[c] @ cs'"] visited_single_append [of f "[c]" cs']
    by simp
  ultimately show ?thesis by simp
qed

text \<open>
  Claim C2. Take any found entry \<open>f\<close> and any library entry \<open>c\<close>, each at its place in
  its dictionary. In the list the Enumerator returns, the place of the pair \<open>(f, c)\<close>
  (after the derivatives of the found entries before \<open>f\<close> and of the candidates before
  \<open>c\<close>) holds no derivative exactly when the two pattern texts are the same string,
  and otherwise holds the one derivative of that pair. Nothing but the strings is
  compared: patterns that parse to the same query but are written differently are not
  skipped, and every entry that has the text of \<open>f\<close> is skipped.
\<close>

theorem skip_iff_same_pattern_text:
  assumes "found = fs @ f # fs'" and "R_GROUPS w = cs @ c # cs'"
    and "\<forall>p \<in> set (visited found (R_GROUPS w)). \<exists>d. rewrite rd w p = Inr d"
  shows "\<exists>before ds after.
      fst (r_group_enumerator rd found w) = Inr (before @ ds @ after) \<and>
      length before = length (visited fs (R_GROUPS w)) + length (visited [f] cs) \<and>
      length after = length (visited [f] cs') + length (visited fs' (R_GROUPS w)) \<and>
      (ds = [] \<longleftrightarrow> pattern_text c = pattern_text f) \<and>
      (pattern_text c \<noteq> pattern_text f \<longrightarrow> map Inr ds = [rewrite rd w (f, c)])"
proof -
  let ?lib = "R_GROUPS w"
  let ?A = "visited fs ?lib @ visited [f] cs"
  let ?B = "visited [f] [c]"
  let ?C = "visited [f] cs' @ visited fs' ?lib"
  from r_group_enumerator_ok [OF assms(3)] obtain out
    where run: "r_group_enumerator rd found w = (Inr out, w)"
      and out: "map Inr out = map (rewrite rd w) (visited found ?lib)" by blast
  have "visited found ?lib = ?A @ ?B @ ?C"
    unfolding assms(1) assms(2) by (rule visited_position)
  with out have "map Inr out =
      map (rewrite rd w) ?A @ map (rewrite rd w) ?B @ map (rewrite rd w) ?C"
    by simp
  then obtain before rest where o1: "out = before @ rest"
    and b: "map (rewrite rd w) ?A = map Inr before"
    and r: "map (rewrite rd w) ?B @ map (rewrite rd w) ?C = map Inr rest"
    unfolding map_eq_append_conv by blast
  from r obtain ds after where o2: "rest = ds @ after"
    and d: "map (rewrite rd w) ?B = map Inr ds"
    and a: "map (rewrite rd w) ?C = map Inr after"
    using map_eq_append_conv [of Inr rest "map (rewrite rd w) ?B" "map (rewrite rd w) ?C"]
    by metis
  from b have "length (map (rewrite rd w) ?A) = length (map Inr before :: (error + 'a) list)"
    by simp
  then have lb: "length before = length (visited fs ?lib) + length (visited [f] cs)"
    by simp
  from a have "length (map (rewrite rd w) ?C) = length (map Inr after :: (error + 'a) list)"
    by simp
  then have la: "length after = length (visited [f] cs') + length (visited fs' ?lib)"
    by simp
  from d have "length (map (rewrite rd w) ?B) = length (map Inr ds :: (error + 'a) list)"
    by simp
  then have "length ds = length ?B" by simp
  then have "ds = [] \<longleftrightarrow> ?B = []" by (metis length_0_conv)
  then have skip: "ds = [] \<longleftrightarrow> pattern_text c = pattern_text f"
    by (simp add: visited_single_one)
  have one: "map Inr ds = [rewrite rd w (f, c)]" if "pattern_text c \<noteq> pattern_text f"
    using d that by (simp add: visited_single_one)
  from run o1 o2 have "fst (r_group_enumerator rd found w) = Inr (before @ ds @ after)"
    by simp
  with lb la skip one
  have "fst (r_group_enumerator rd found w) = Inr (before @ ds @ after) \<and>
      length before = length (visited fs (R_GROUPS w)) + length (visited [f] cs) \<and>
      length after = length (visited [f] cs') + length (visited fs' (R_GROUPS w)) \<and>
      (ds = [] \<longleftrightarrow> pattern_text c = pattern_text f) \<and>
      (pattern_text c \<noteq> pattern_text f \<longrightarrow> map Inr ds = [rewrite rd w (f, c)])"
    by simp
  then show ?thesis by (intro exI)
qed

theorem skip_iff_same_pattern_text_witness:
  "fst (r_group_enumerator chain_rdkit alcohol_found notation_world) = Inr [''SCCS'', ''NCCN''] \<and>
   parse_chain ''O'' = parse_chain ''[O]'' \<and>
   (\<exists>before ds after.
      fst (r_group_enumerator chain_rdkit alcohol_found notation_world) = Inr (before @ ds @ after) \<and>
      length before = 0 \<and> length after = 1 \<and> ds \<noteq> [] \<and>
      map Inr ds = [rewrite chain_rdkit notation_world
        ((''alcohol'', (''O'', ''[O]'')), (''thiol'', (''S'', ''O'')))]) \<and>
   (\<exists>before ds after.
      fst (r_group_enumerator chain_rdkit alcohol_found notation_world) = Inr (before @ ds @ after) \<and>
      length before = 1 \<and> length after = 1 \<and> ds = [])"
proof -
  let ?f = "(''alcohol'', (''O'', ''[O]''))"
  let ?thiol = "(''thiol'', (''S'', ''O''))"
  let ?phosphine = "(''phosphine'', (''P'', ''[O]''))"
  let ?amine = "(''amine'', (''N'', ''[N]''))"
  have run: "fst (r_group_enumerator chain_rdkit alcohol_found notation_world) = Inr [''SCCS'', ''NCCN'']"
    by code_simp
  have same: "parse_chain ''O'' = parse_chain ''[O]''"
    by code_simp
  have found: "alcohol_found = [] @ ?f # []"
    by code_simp
  have "list_all (\<lambda>p. \<not> isl (rewrite chain_rdkit notation_world p))
      (visited alcohol_found (R_GROUPS notation_world))"
    by code_simp
  then have h: "\<forall>p \<in> set (visited alcohol_found (R_GROUPS notation_world)).
      \<exists>d. rewrite chain_rdkit notation_world p = Inr d"
    by (rule all_Inr_code)
  have lib1: "R_GROUPS notation_world = [?f] @ ?thiol # [?phosphine, ?amine]"
    by code_simp
  have lib2: "R_GROUPS notation_world = [?f, ?thiol] @ ?phosphine # [?amine]"
    by code_simp
  have l1: "length (visited [] (R_GROUPS notation_world)) + length (visited [?f] [?f]) = 0"
    and l2: "length (visited [?f] [?phosphine, ?amine]) + length (visited [] (R_GROUPS notation_world)) = 1"
    and l3: "length (visited [] (R_GROUPS notation_world)) + length (visited [?f] [?f, ?thiol]) = 1"
    and l4: "length (visited [?f] [?amine]) + length (visited [] (R_GROUPS notation_world)) = 1"
    and t1: "pattern_text ?thiol \<noteq> pattern_text ?f"
    and t2: "pattern_text ?phosphine = pattern_text ?f"
    by code_simp+
  from skip_iff_same_pattern_text [OF found lib1 h] obtain before ds after
    where "fst (r_group_enumerator chain_rdkit alcohol_found notation_world) = Inr (before @ ds @ after)"
      and "length before = length (visited [] (R_GROUPS notation_world)) + length (visited [?f] [?f])"
      and "length after = length (visited [?f] [?phosphine, ?amine]) + length (visited [] (R_GROUPS notation_world))"
      and "ds = [] \<longleftrightarrow> pattern_text ?thiol = pattern_text ?f"
      and "pattern_text ?thiol \<noteq> pattern_text ?f \<longrightarrow>
           map Inr ds = [rewrite chain_rdkit notation_world (?f, ?thiol)]"
    by (elim exE conjE) (rule that)
  with l1 l2 t1
  have "fst (r_group_enumerator chain_rdkit alcohol_found notation_world) = Inr (before @ ds @ after) \<and>
      length before = 0 \<and> length after = 1 \<and> ds \<noteq> [] \<and>
      map Inr ds = [rewrite chain_rdkit notation_world (?f, ?thiol)]"
    by simp
  then have kept: "\<exists>before ds after.
      fst (r_group_enumerator chain_rdkit alcohol_found notation_world) = Inr (before @ ds @ after) \<and>
      length before = 0 \<and> length after = 1 \<and> ds \<noteq> [] \<and>
      map Inr ds = [rewrite chain_rdkit notation_world (?f, ?thiol)]"
    by (intro exI)
  from skip_iff_same_pattern_text [OF found lib2 h] obtain before ds after
    where "fst (r_group_enumerator chain_rdkit alcohol_found notation_world) = Inr (before @ ds @ after)"
      and "length before = length (visited [] (R_GROUPS notation_world)) + length (visited [?f] [?f, ?thiol])"
      and "length after = length (visited [?f] [?amine]) + length (visited [] (R_GROUPS notation_world))"
      and "ds = [] \<longleftrightarrow> pattern_text ?phosphine = pattern_text ?f"
    by (elim exE conjE) (rule that)
  with l3 l4 t2
  have "fst (r_group_enumerator chain_rdkit alcohol_found notation_world) = Inr (before @ ds @ after) \<and>
      length before = 1 \<and> length after = 1 \<and> ds = []"
    by simp
  then have skipped: "\<exists>before ds after.
      fst (r_group_enumerator chain_rdkit alcohol_found notation_world) = Inr (before @ ds @ after) \<and>
      length before = 1 \<and> length after = 1 \<and> ds = []"
    by (intro exI)
  from run same kept skipped show ?thesis by (intro conjI)
qed

subsection \<open>One rewrite for each visited pair\<close>







section \<open>Failures of RDKit calls\<close>

text \<open>
  Claim C7, as the code has it. \<^verbatim>\<open>r_group_enumerator\<close> has no handler around the call
  of \<^verbatim>\<open>ReplaceSubstructs\<close>: when the rewrite of a visited pair cannot be performed and
  the pairs visited before it could, the exception of that pair leaves the method. No
  list is returned, so the derivatives of the earlier pairs are lost and the later pairs
  are never tried, and nothing is printed.
\<close>

theorem enumerator_aborts_on_first_failure:
  assumes "visited found (R_GROUPS w) = pre @ p # post"
    and "\<forall>p' \<in> set pre. \<exists>d. rewrite rd w p' = Inr d"
    and "rewrite rd w p = Inl e"
  shows "r_group_enumerator rd found w = (Inl e, w)"
proof -
  from all_Inr_map [OF assms(2)] obtain ds where "map (rewrite rd w) pre = map Inr ds"
    by blast
  with assms(1,3)
  have "map (rewrite rd w) (visited found (R_GROUPS w)) =
      map Inr ds @ Inl e # map (rewrite rd w) post"
    by simp
  then have "collect (map (rewrite rd w) (visited found (R_GROUPS w))) = Inl e"
    by (simp only: collect_first_error)
  then show ?thesis
    by (simp add: r_group_enumerator_collect)
qed

theorem enumerator_aborts_on_first_failure_witness:
  "visited alcohol_found (R_GROUPS bad_fragment_world) =
     [((''alcohol'', (''O'', ''[O]'')), (''amine'', (''N'', ''[N]'')))] @
       ((''alcohol'', (''O'', ''[O]'')), (''sulfide'', (''('', ''[S]''))) #
       [((''alcohol'', (''O'', ''[O]'')), (''fluoride'', (''F'', ''[F]'')))] \<and>
   rewrite chain_rdkit bad_fragment_world
     ((''alcohol'', (''O'', ''[O]'')), (''sulfide'', (''('', ''[S]''))) = Inl ArgumentError \<and>
   r_group_enumerator chain_rdkit alcohol_found bad_fragment_world =
     (Inl ArgumentError, bad_fragment_world)"
proof -
  let ?pre = "[((''alcohol'', (''O'', ''[O]'')), (''amine'', (''N'', ''[N]'')))]"
  let ?p = "((''alcohol'', (''O'', ''[O]'')), (''sulfide'', (''('', ''[S]'')))"
  let ?post = "[((''alcohol'', (''O'', ''[O]'')), (''fluoride'', (''F'', ''[F]'')))]"
  have v: "visited alcohol_found (R_GROUPS bad_fragment_world) = ?pre @ ?p # ?post"
    by code_simp
  have "list_all (\<lambda>p. \<not> isl (rewrite chain_rdkit bad_fragment_world p)) ?pre"
    by code_simp
  then have pre: "\<forall>p' \<in> set ?pre. \<exists>d. rewrite chain_rdkit bad_fragment_world p' = Inr d"
    by (rule all_Inr_code)
  have bad: "rewrite chain_rdkit bad_fragment_world ?p = Inl ArgumentError"
    by code_simp
  from v bad enumerator_aborts_on_first_failure [OF v pre bad]
  show ?thesis by (intro conjI)
qed

text \<open>
  The run behind it: the fragment of the second library entry does not parse, the call
  for the pair (alcohol, sulfide) raises, and the derivatives of the pairs
  (alcohol, amine) and (alcohol, fluoride), whose rewrites can be performed, are not
  delivered.
\<close>

theorem enumerator_does_not_skip_a_failing_pair:
  "rewrite chain_rdkit bad_fragment_world
     ((''alcohol'', (''O'', ''[O]'')), (''amine'', (''N'', ''[N]''))) = Inr ''NCCN'' \<and>
   rewrite chain_rdkit bad_fragment_world
     ((''alcohol'', (''O'', ''[O]'')), (''fluoride'', (''F'', ''[F]''))) = Inr ''FCCF'' \<and>
   fst (r_group_enumerator chain_rdkit alcohol_found bad_fragment_world) = Inl ArgumentError \<and>
   stdout (snd (r_group_enumerator chain_rdkit alcohol_found bad_fragment_world)) = []"
proof (intro conjI)
  show "rewrite chain_rdkit bad_fragment_world
     ((''alcohol'', (''O'', ''[O]'')), (''amine'', (''N'', ''[N]''))) = Inr ''NCCN''"
    by code_simp
  show "rewrite chain_rdkit bad_fragment_world
     ((''alcohol'', (''O'', ''[O]'')), (''fluoride'', (''F'', ''[F]''))) = Inr ''FCCF''"
    by code_simp
  show "fst (r_group_enumerator chain_rdkit alcohol_found bad_fragment_world) = Inl ArgumentError"
    by code_simp
  show "stdout (snd (r_group_enumerator chain_rdkit alcohol_found bad_fragment_world)) = []"
    by code_simp
qed




section \<open>The occurrence sequence the Finder uses\<close>







section \<open>What the methods leave unchanged\<close>

text \<open>
  Claim C9. Whatever the inputs and whether the call returns or raises,
  \<^verbatim>\<open>find_r_groups\<close> leaves the object (and so its molecule) and the library
  \<^verbatim>\<open>R_GROUPS\<close> as they were: of the world it changes standard output only.
  \<^verbatim>\<open>r_group_enumerator\<close> changes nothing at all; the derivatives are the values
  \<^verbatim>\<open>ReplaceSubstructs\<close> returns, collected in a list of their own, and the molecule
  of the object is the same before and after.
\<close>

theorem finder_and_enumerator_only_read:
  "self (snd (find_r_groups rd w)) = self w \<and>
   molecule (self (snd (find_r_groups rd w))) = molecule (self w) \<and>
   R_GROUPS (snd (find_r_groups rd w)) = R_GROUPS w \<and>
   sanitize_calls (snd (find_r_groups rd w)) = sanitize_calls w \<and>
   snd (r_group_enumerator rd found w) = w"
proof -
  have "snd (r_group_enumerator rd found w) = w"
    by (simp add: r_group_enumerator_collect split: sum.splits)
  with find_loop_frame [of rd "R_GROUPS w" "[]" w] show ?thesis
    by (simp add: find_r_groups_def)
qed

section \<open>\<^verbatim>\<open>validate_molecule\<close>\<close>

text \<open>
  Claim C10. Called with a molecule, \<^verbatim>\<open>validate_molecule\<close> returns \<^verbatim>\<open>None\<close>
  and changes nothing: \<^verbatim>\<open>SanitizeMol\<close> is not called. The same holds for every
  truthy argument. \<^verbatim>\<open>SanitizeMol\<close> is called exactly when the argument is falsy
  (\<^verbatim>\<open>None\<close> among them), on that argument, which is then returned whatever the call
  did. So no molecule a caller supplies is ever sanitized.
\<close>

theorem validate_molecule_never_validates:
  "validate_molecule rd (PyMol m) w = (PyNone, w) \<and>
   (truthy x \<longrightarrow> validate_molecule rd x w = (PyNone, w)) \<and>
   (\<not> truthy x \<longrightarrow> fst (validate_molecule rd x w) = x) \<and>
   sanitize_calls (snd (validate_molecule rd x w)) =
     sanitize_calls w @ (if truthy x then [] else [x]) \<and>
   sanitize_calls (snd (validate_molecule rd x w)) \<noteq> sanitize_calls w @ [PyMol m']"
proof -
  have sanitized: "sanitize_calls (snd (validate_molecule rd x w)) =
      sanitize_calls w @ (if truthy x then [] else [x])"
    by (simp add: validate_molecule_def Let_def split: sum.splits error.splits)
  have "\<not> truthy x \<Longrightarrow> fst (validate_molecule rd x w) = x"
    by (simp add: validate_molecule_def Let_def split: sum.splits error.splits)
  moreover have "sanitize_calls (snd (validate_molecule rd x w)) \<noteq> sanitize_calls w @ [PyMol m']"
    unfolding sanitized by (cases x) auto
  ultimately show ?thesis
    using sanitized by (simp add: validate_molecule_def)
qed

theorem validate_molecule_never_validates_witness:
  "validate_molecule chain_rdkit (PyMol ''CCO'') glycol_world = (PyNone, glycol_world) \<and>
   validate_molecule chain_rdkit (PyInt 5) glycol_world = (PyNone, glycol_world) \<and>
   fst (validate_molecule chain_rdkit PyNone glycol_world) = PyNone \<and>
   sanitize_calls (snd (validate_molecule chain_rdkit PyNone glycol_world)) = [PyNone] \<and>
   fst (validate_molecule chain_rdkit (PyInt 0) glycol_world) = PyInt 0 \<and>
   sanitize_calls (snd (validate_molecule chain_rdkit (PyInt 0) glycol_world)) = [PyInt 0]"
proof -
  have empty: "sanitize_calls glycol_world = []"
    by code_simp
  note at_none = validate_molecule_never_validates [of chain_rdkit "''CCO''" glycol_world PyNone "''CCO''"]
  note at_zero = validate_molecule_never_validates [of chain_rdkit "''CCO''" glycol_world "PyInt 0" "''CCO''"]
  note at_five = validate_molecule_never_validates [of chain_rdkit "''CCO''" glycol_world "PyInt 5" "''CCO''"]
  from at_none have "validate_molecule chain_rdkit (PyMol ''CCO'') glycol_world = (PyNone, glycol_world)"
    by (rule conjunct1)
  moreover from at_five have "validate_molecule chain_rdkit (PyInt 5) glycol_world = (PyNone, glycol_world)"
    by simp
  moreover from at_none empty have "fst (validate_molecule chain_rdkit PyNone glycol_world) = PyNone"
    and "sanitize_calls (snd (validate_molecule chain_rdkit PyNone glycol_world)) = [PyNone]"
    by simp_all
  moreover from at_zero empty have "fst (validate_molecule chain_rdkit (PyInt 0) glycol_world) = PyInt 0"
    and "sanitize_calls (snd (validate_molecule chain_rdkit (PyInt 0) glycol_world)) = [PyInt 0]"
    by simp_all
  ultimately show ?thesis by (intro conjI)
qed

end
